theory Spec2Isabelle
  imports Main
begin

section \<open>The chat client of nano-jarvis.js\<close>

text \<open>
  The development embeds the function \<open>chat\<close> of \<^verbatim>\<open>src/nano-jarvis.js\<close> (lines 10 to 102):
  the buffered decoder (lines 33 to 42), the helper \<open>parse\<close> (lines 44 to 61) and the
  streaming read loop (lines 63 to 101).

  Text is \<open>string\<close>: a list of characters, each one code unit of the JavaScript string,
  so the model covers texts whose code units are below 256. A chunk of the response body
  is the text that \<^verbatim>\<open>decoder.decode(value)\<close> returns for it. The library function
  \<^verbatim>\<open>JSON.parse\<close> is a parameter \<open>JSON_parse\<close> of the model (\<open>None\<close> when it throws
  SyntaxError), so the general theorems hold for every behaviour of the library; the
  reader \<open>json_parse\<close> below instantiates it where a concrete input is evaluated.
  The observer \<open>handler\<close> is a sink: the model records whether one was supplied and the
  list \<open>sent\<close> of the fragments it was called with, in call order.
\<close>

subsection \<open>JavaScript values and strings\<close>

datatype json =
    JNull
  | JBool bool
  | JNum string
  | JStr string
  | JArr "json list"
  | JObj "(string \<times> json) list"

text \<open>A value as a JavaScript expression sees it: \<open>undefined\<close>, or a parsed JSON value
  (\<open>Val JNull\<close> is \<open>null\<close>). A number keeps its literal: no operation below reads it.\<close>

datatype jsval = Undefined | Val json

datatype error =
    HttpError nat string
  | SyntaxError
  | TypeError
  | OutOfModel

text \<open>\<^verbatim>\<open>String.prototype.trim\<close>: the white space and line terminators of ECMAScript
  below code unit 256.\<close>

definition is_space :: "char \<Rightarrow> bool" where
  "is_space c = (c = CHR 0x09 \<or> c = CHR 0x0A \<or> c = CHR 0x0B \<or> c = CHR 0x0C
     \<or> c = CHR 0x0D \<or> c = CHR 0x20 \<or> c = CHR 0xA0)"

definition trim :: "string \<Rightarrow> string" where
  "trim s = rev (dropWhile is_space (rev (dropWhile is_space s)))"

text \<open>\<^verbatim>\<open>text.split("\n")\<close>: the pieces between the newlines; never the empty list.\<close>

fun split_lines :: "string \<Rightarrow> string list" where
  "split_lines [] = [[]]"
| "split_lines (c # cs) =
     (if c = CHR 0x0A then [] # split_lines cs
      else (case split_lines cs of [] \<Rightarrow> [[c]] | l # ls \<Rightarrow> (c # l) # ls))"

text \<open>The own member \<open>k\<close> of a parsed object; of two members of one name the later one
  is the value, as \<^verbatim>\<open>JSON.parse\<close> builds it.\<close>

definition member_of :: "(string \<times> json) list \<Rightarrow> string \<Rightarrow> jsval" where
  "member_of kvs k = (case map_of (rev kvs) k of None \<Rightarrow> Undefined | Some v \<Rightarrow> Val v)"

text \<open>Reading the property \<open>k\<close> of a value (\<^verbatim>\<open>const { k } = v\<close>, \<^verbatim>\<open>v.k\<close>), for the names
  \<open>choices\<close>, \<open>message\<close>, \<open>delta\<close> and \<open>content\<close>, which no built-in prototype defines:
  TypeError on \<open>undefined\<close> and \<open>null\<close>, \<open>undefined\<close> on a value that is not an object.\<close>

fun property :: "jsval \<Rightarrow> string \<Rightarrow> error + jsval" where
  "property Undefined k = Inl TypeError"
| "property (Val JNull) k = Inl TypeError"
| "property (Val (JObj kvs)) k = Inr (member_of kvs k)"
| "property (Val v) k = Inr Undefined"

text \<open>\<^verbatim>\<open>const [choice] = choices\<close> (line 51): the first value the iterator of \<open>choices\<close>
  yields; only arrays and strings are iterable.\<close>

fun first_of :: "jsval \<Rightarrow> error + jsval" where
  "first_of (Val (JArr xs)) = Inr (case xs of [] \<Rightarrow> Undefined | x # _ \<Rightarrow> Val x)"
| "first_of (Val (JStr s)) = Inr (case s of [] \<Rightarrow> Undefined | c # _ \<Rightarrow> Val (JStr [c]))"
| "first_of v = Inl TypeError"

text \<open>\<^verbatim>\<open>choices[0]\<close> (line 36).\<close>

fun index0 :: "jsval \<Rightarrow> error + jsval" where
  "index0 Undefined = Inl TypeError"
| "index0 (Val JNull) = Inl TypeError"
| "index0 (Val (JArr xs)) = Inr (case xs of [] \<Rightarrow> Undefined | x # _ \<Rightarrow> Val x)"
| "index0 (Val (JStr s)) = Inr (case s of [] \<Rightarrow> Undefined | c # _ \<Rightarrow> Val (JStr [c]))"
| "index0 (Val (JObj kvs)) = Inr (member_of kvs ''0'')"
| "index0 (Val v) = Inr Undefined"

text \<open>\<^verbatim>\<open>delta?.content\<close> (line 53).\<close>

fun optional_content :: "jsval \<Rightarrow> jsval" where
  "optional_content Undefined = Undefined"
| "optional_content (Val JNull) = Undefined"
| "optional_content (Val (JObj kvs)) = member_of kvs ''content''"
| "optional_content (Val v) = Undefined"

subsection \<open>The helper parse (lines 44 to 61)\<close>

text \<open>\<open>partial\<close> starts as \<open>null\<close>; every exception of the \<open>try\<close> block is caught and
  leaves it \<open>null\<close>.\<close>

definition parse :: "(string \<Rightarrow> json option) \<Rightarrow> string \<Rightarrow> jsval" where
  "parse JSON_parse line =
     (let prefix = take 6 line in
      if prefix = ''data: '' then
        (let payload = drop 6 line in
         case JSON_parse payload of
           None \<Rightarrow> Val JNull
         | Some v \<Rightarrow>
             (case property (Val v) ''choices'' of
                Inl e \<Rightarrow> Val JNull
              | Inr choices \<Rightarrow>
                  (case first_of choices of
                     Inl e \<Rightarrow> Val JNull
                   | Inr choice \<Rightarrow>
                       (case property choice ''delta'' of
                          Inl e \<Rightarrow> Val JNull
                        | Inr delta \<Rightarrow> optional_content delta))))
      else Val JNull)"

subsection \<open>The streaming read loop (lines 63 to 101)\<close>

record state =
  answer :: string
  buffer :: string
  sent :: "string list"

definition initial :: state where
  "initial = \<lparr>answer = [], buffer = [], sent = []\<rparr>"

text \<open>Lines 88 to 96, for a string \<open>partial\<close> of positive length.\<close>

definition accumulate :: "bool \<Rightarrow> state \<Rightarrow> string \<Rightarrow> state" where
  "accumulate handler st partial =
     (if length (answer st) < 1 then
        (let leading = trim partial in
         st\<lparr>buffer := [], answer := leading,
            sent := (if handler \<and> length leading > 0 then sent st @ [leading] else sent st)\<rparr>)
      else
        st\<lparr>buffer := [], answer := answer st @ partial,
           sent := (if handler then sent st @ [partial] else sent st)\<rparr>)"

text \<open>Lines 85 to 97: what the loop does with the value of \<open>parse(line)\<close>.
  A string of length 0, \<open>undefined\<close>, a number, a boolean, an empty array and an object
  with no member \<open>length\<close> fail the test of line 87 and change nothing. A non-empty array
  passes it: with an empty answer \<^verbatim>\<open>partial.trim()\<close> throws TypeError. The two remaining
  cases (\<^verbatim>\<open>answer += partial\<close> on an array, \<^verbatim>\<open>partial.length > 0\<close> on an object that has
  a member \<open>length\<close>) depend on the number conversions of JavaScript; the model stops
  there with \<open>OutOfModel\<close>.\<close>

fun on_partial :: "bool \<Rightarrow> state \<Rightarrow> string \<Rightarrow> jsval \<Rightarrow> error + state" where
  "on_partial handler st line (Val JNull) = Inr (st\<lparr>buffer := line\<rparr>)"
| "on_partial handler st line (Val (JStr p)) =
     (if length p > 0 then Inr (accumulate handler st p) else Inr st)"
| "on_partial handler st line (Val (JArr xs)) =
     (if length xs > 0 then (if length (answer st) < 1 then Inl TypeError else Inl OutOfModel)
      else Inr st)"
| "on_partial handler st line (Val (JObj kvs)) =
     (case member_of kvs ''length'' of Undefined \<Rightarrow> Inr st | Val v \<Rightarrow> Inl OutOfModel)"
| "on_partial handler st line v = Inr st"

datatype flow = Continue | Break

text \<open>The body of the \<open>for\<close> loop (lines 75 to 98) on the piece \<open>raw = lines[i]\<close>.\<close>

definition line_step ::
  "(string \<Rightarrow> json option) \<Rightarrow> bool \<Rightarrow> state \<Rightarrow> string \<Rightarrow> error + (flow \<times> state)" where
  "line_step JSON_parse handler st raw =
     (let line = buffer st @ raw in
      if take 1 line = '':'' then Inr (Continue, st\<lparr>buffer := []\<rparr>)
      else if line = ''data: [DONE]'' then Inr (Break, st)
      else if length line > 0 then
        (case on_partial handler st line (parse JSON_parse line) of
           Inl e \<Rightarrow> Inl e
         | Inr st' \<Rightarrow> Inr (Continue, st'))
      else Inr (Continue, st))"

text \<open>The \<open>for\<close> loop over the pieces of one chunk (line 74).\<close>

fun for_lines ::
  "(string \<Rightarrow> json option) \<Rightarrow> bool \<Rightarrow> state \<Rightarrow> string list \<Rightarrow> error + state" where
  "for_lines JSON_parse handler st [] = Inr st"
| "for_lines JSON_parse handler st (raw # rest) =
     (case line_step JSON_parse handler st raw of
        Inl e \<Rightarrow> Inl e
      | Inr (Break, st') \<Rightarrow> Inr st'
      | Inr (Continue, st') \<Rightarrow> for_lines JSON_parse handler st' rest)"

definition on_chunk ::
  "(string \<Rightarrow> json option) \<Rightarrow> bool \<Rightarrow> state \<Rightarrow> string \<Rightarrow> error + state" where
  "on_chunk JSON_parse handler st chunk = for_lines JSON_parse handler st (split_lines chunk)"

text \<open>The \<open>while\<close> loop (line 68): one round for each chunk the reader yields; the empty
  list is the read that reports \<open>done\<close>.\<close>

fun read_loop ::
  "(string \<Rightarrow> json option) \<Rightarrow> bool \<Rightarrow> state \<Rightarrow> string list \<Rightarrow> error + state" where
  "read_loop JSON_parse handler st [] = Inr st"
| "read_loop JSON_parse handler st (chunk # chunks) =
     (case on_chunk JSON_parse handler st chunk of
        Inl e \<Rightarrow> Inl e
      | Inr st' \<Rightarrow> read_loop JSON_parse handler st' chunks)"

subsection \<open>The function chat (lines 10 to 102)\<close>

text \<open>The response of \<open>fetch\<close>: \<open>body\<close> lists the chunks the body arrives in;
  \<^verbatim>\<open>response.json()\<close> parses their concatenation.\<close>

record response =
  ok :: bool
  status :: nat
  statusText :: string
  body :: "string list"

text \<open>Lines 34 to 41. The result is the returned answer with the fragments handed to the
  observer.\<close>

definition buffered ::
  "(string \<Rightarrow> json option) \<Rightarrow> bool \<Rightarrow> response \<Rightarrow> error + (string \<times> string list)" where
  "buffered JSON_parse handler resp =
     (case JSON_parse (concat (body resp)) of
        None \<Rightarrow> Inl SyntaxError
      | Some data \<Rightarrow>
          (case property (Val data) ''choices'' of
             Inl e \<Rightarrow> Inl e
           | Inr choices \<Rightarrow>
               (case index0 choices of
                  Inl e \<Rightarrow> Inl e
                | Inr first \<Rightarrow>
                    (case property first ''message'' of
                       Inl e \<Rightarrow> Inl e
                     | Inr message \<Rightarrow>
                         (case property message ''content'' of
                            Inl e \<Rightarrow> Inl e
                          | Inr (Val (JStr content)) \<Rightarrow>
                              (let answer = trim content
                               in Inr (answer, if handler then [answer] else []))
                          | Inr v \<Rightarrow> Inl TypeError)))))"

text \<open>\<open>LLM_STREAMING\<close> is the configuration flag of line 8; \<open>handler\<close> tells whether the
  second argument is a function.\<close>

definition chat ::
  "(string \<Rightarrow> json option) \<Rightarrow> bool \<Rightarrow> bool \<Rightarrow> response \<Rightarrow> error + (string \<times> string list)" where
  "chat JSON_parse LLM_STREAMING handler resp =
     (let stream = (LLM_STREAMING \<and> handler) in
      if \<not> ok resp then Inl (HttpError (status resp) (statusText resp))
      else if \<not> stream then buffered JSON_parse handler resp
      else
        (case read_loop JSON_parse handler initial (body resp) of
           Inl e \<Rightarrow> Inl e
         | Inr st \<Rightarrow> Inr (answer st, sent st)))"

subsection \<open>A reader for JSON texts\<close>

text \<open>
  \<open>json_parse\<close> reads a JSON text by the grammar of ECMA-404, as \<^verbatim>\<open>JSON.parse\<close> does:
  white space, the three literal names, numbers, strings with their escapes, arrays and
  objects, and nothing but white space after the value. A \<^verbatim>\<open>\u\<close> escape above
  \<^verbatim>\<open>00FF\<close> is outside the character type of the model and is refused. The first
  argument of \<open>jvalue\<close>, \<open>jarray\<close> and \<open>jobject\<close> bounds the depth of their calls;
  each call below the first consumes a character, so the length of the text suffices.
\<close>

definition is_digit :: "char \<Rightarrow> bool" where
  "is_digit c = (48 \<le> (of_char c :: nat) \<and> (of_char c :: nat) \<le> 57)"

definition json_ws :: "char \<Rightarrow> bool" where
  "json_ws c = (c = CHR 0x20 \<or> c = CHR 0x09 \<or> c = CHR 0x0A \<or> c = CHR 0x0D)"

definition hex_val :: "char \<Rightarrow> nat option" where
  "hex_val c =
     (let n = (of_char c :: nat) in
      if 48 \<le> n \<and> n \<le> 57 then Some (n - 48)
      else if 65 \<le> n \<and> n \<le> 70 then Some (n - 55)
      else if 97 \<le> n \<and> n \<le> 102 then Some (n - 87)
      else None)"

definition unescape :: "char \<Rightarrow> char option" where
  "unescape e =
     (if e = CHR 0x22 then Some (CHR 0x22)
      else if e = CHR 0x5C then Some (CHR 0x5C)
      else if e = CHR ''/'' then Some (CHR ''/'')
      else if e = CHR ''b'' then Some (CHR 0x08)
      else if e = CHR ''f'' then Some (CHR 0x0C)
      else if e = CHR ''n'' then Some (CHR 0x0A)
      else if e = CHR ''r'' then Some (CHR 0x0D)
      else if e = CHR ''t'' then Some (CHR 0x09)
      else None)"

definition hex4 :: "char \<Rightarrow> char \<Rightarrow> char \<Rightarrow> char \<Rightarrow> nat option" where
  "hex4 a b c d =
     (case (hex_val a, hex_val b, hex_val c, hex_val d) of
        (Some w, Some x, Some y, Some z) \<Rightarrow> Some (((w * 16 + x) * 16 + y) * 16 + z)
      | _ \<Rightarrow> None)"

fun jstring :: "string \<Rightarrow> (string \<times> string) option" where
  "jstring [] = None"
| "jstring (c # cs) =
     (if c = CHR 0x22 then Some ([], cs)
      else if c = CHR 0x5C then
        (case cs of
           [] \<Rightarrow> None
         | e # r \<Rightarrow>
             if e = CHR ''u'' then
               (case r of
                  a # b # c # d # r' \<Rightarrow>
                    (case hex4 a b c d of
                       None \<Rightarrow> None
                     | Some n \<Rightarrow>
                         if n < 256 then
                           (case jstring r' of None \<Rightarrow> None
                            | Some (s, t) \<Rightarrow> Some (char_of n # s, t))
                         else None)
                | _ \<Rightarrow> None)
             else
               (case unescape e of
                  None \<Rightarrow> None
                | Some x \<Rightarrow>
                    (case jstring r of None \<Rightarrow> None | Some (s, t) \<Rightarrow> Some (x # s, t))))
      else if (of_char c :: nat) < 32 then None
      else (case jstring cs of None \<Rightarrow> None | Some (s, t) \<Rightarrow> Some (c # s, t)))"

definition jnumber :: "string \<Rightarrow> (string \<times> string) option" where
  "jnumber s =
     (let s0 = (if take 1 s = ''-'' then drop 1 s else s);
          ip = takeWhile is_digit s0;
          s1 = dropWhile is_digit s0;
          fp = (if take 1 s1 = ''.'' then takeWhile is_digit (drop 1 s1) else ''0'');
          s2 = (if take 1 s1 = ''.'' then dropWhile is_digit (drop 1 s1) else s1);
          has_exp = (take 1 s2 = ''e'' \<or> take 1 s2 = ''E'');
          s3 = (if take 1 (drop 1 s2) = ''+'' \<or> take 1 (drop 1 s2) = ''-''
                then drop 2 s2 else drop 1 s2);
          ep = (if has_exp then takeWhile is_digit s3 else ''0'');
          s4 = (if has_exp then dropWhile is_digit s3 else s2)
      in if ip = [] \<or> (length ip > 1 \<and> take 1 ip = ''0'') \<or> fp = [] \<or> ep = [] then None
         else Some (take (length s - length s4) s, s4))"

fun jvalue :: "nat \<Rightarrow> string \<Rightarrow> (json \<times> string) option"
and jarray :: "nat \<Rightarrow> json list \<Rightarrow> string \<Rightarrow> (json \<times> string) option"
and jobject :: "nat \<Rightarrow> (string \<times> json) list \<Rightarrow> string \<Rightarrow> (json \<times> string) option"
where
  "jvalue 0 s = None"
| "jvalue (Suc n) s =
     (case dropWhile json_ws s of
        [] \<Rightarrow> None
      | c # cs \<Rightarrow>
          if c = CHR ''{'' then
            (if take 1 (dropWhile json_ws cs) = ''}''
             then Some (JObj [], drop 1 (dropWhile json_ws cs))
             else jobject n [] cs)
          else if c = CHR ''['' then
            (if take 1 (dropWhile json_ws cs) = '']''
             then Some (JArr [], drop 1 (dropWhile json_ws cs))
             else jarray n [] cs)
          else if c = CHR 0x22 then
            (case jstring cs of None \<Rightarrow> None | Some (x, t) \<Rightarrow> Some (JStr x, t))
          else if take 4 (c # cs) = ''true'' then Some (JBool True, drop 4 (c # cs))
          else if take 5 (c # cs) = ''false'' then Some (JBool False, drop 5 (c # cs))
          else if take 4 (c # cs) = ''null'' then Some (JNull, drop 4 (c # cs))
          else (case jnumber (c # cs) of None \<Rightarrow> None | Some (x, t) \<Rightarrow> Some (JNum x, t)))"
| "jarray 0 acc s = None"
| "jarray (Suc n) acc s =
     (case jvalue n s of
        None \<Rightarrow> None
      | Some (v, t) \<Rightarrow>
          (case dropWhile json_ws t of
             [] \<Rightarrow> None
           | c # r \<Rightarrow>
               if c = CHR '','' then jarray n (acc @ [v]) r
               else if c = CHR '']'' then Some (JArr (acc @ [v]), r)
               else None))"
| "jobject 0 acc s = None"
| "jobject (Suc n) acc s =
     (case dropWhile json_ws s of
        [] \<Rightarrow> None
      | q # r \<Rightarrow>
          if q = CHR 0x22 then
            (case jstring r of
               None \<Rightarrow> None
             | Some (k, t) \<Rightarrow>
                 (case dropWhile json_ws t of
                    [] \<Rightarrow> None
                  | c # u \<Rightarrow>
                      if c = CHR '':'' then
                        (case jvalue n u of
                           None \<Rightarrow> None
                         | Some (v, w) \<Rightarrow>
                             (case dropWhile json_ws w of
                                [] \<Rightarrow> None
                              | d # x \<Rightarrow>
                                  if d = CHR '','' then jobject n (acc @ [(k, v)]) x
                                  else if d = CHR ''}'' then Some (JObj (acc @ [(k, v)]), x)
                                  else None))
                      else None))
          else None)"

definition json_parse :: "string \<Rightarrow> json option" where
  "json_parse s =
     (case jvalue (Suc (length s)) s of
        None \<Rightarrow> None
      | Some (v, t) \<Rightarrow> if dropWhile json_ws t = [] then Some v else None)"

subsection \<open>The wire format (section 6 of the specification)\<close>

text \<open>The answer text of a buffered response body: the string that the value of the body
  holds as the content of the message of its first choice, whatever other members the
  value has.\<close>

definition message_content :: "json \<Rightarrow> string option" where
  "message_content data =
     (case property (Val data) ''choices'' of
        Inl e \<Rightarrow> None
      | Inr choices \<Rightarrow>
          (case index0 choices of
             Inl e \<Rightarrow> None
           | Inr first \<Rightarrow>
               (case property first ''message'' of
                  Inl e \<Rightarrow> None
                | Inr message \<Rightarrow>
                    (case property message ''content'' of
                       Inr (Val (JStr content)) \<Rightarrow> Some content
                     | _ \<Rightarrow> None))))"

text \<open>A chunk that holds whole lines: each line followed by its newline.\<close>

definition unlines :: "string list \<Rightarrow> string" where
  "unlines ls = concat (map (\<lambda>l. l @ [CHR 0x0A]) ls)"

text \<open>The fragment that a line of an event stream carries: none for a blank line, a
  comment line and a data line whose event has no delta content, the content string for
  a data line whose event has one. \<open>None\<close> for any other line (no \<^verbatim>\<open>data: \<close> prefix,
  a payload that does not parse, a content that is \<open>null\<close> or not a string).\<close>

definition line_fragment :: "(string \<Rightarrow> json option) \<Rightarrow> string \<Rightarrow> string option" where
  "line_fragment JSON_parse l =
     (if l = [] \<or> take 1 l = '':'' then Some []
      else (case parse JSON_parse l of
              Undefined \<Rightarrow> Some []
            | Val (JStr f) \<Rightarrow> Some f
            | _ \<Rightarrow> None))"

text \<open>The lines \<open>ls\<close> of one chunk carry the fragments \<open>fs\<close>: no line holds a newline,
  and the lines before the terminator, if the chunk has one, carry \<open>fs\<close> one by one.\<close>

definition chunk_fragments ::
  "(string \<Rightarrow> json option) \<Rightarrow> string list \<Rightarrow> string list \<Rightarrow> bool" where
  "chunk_fragments JSON_parse ls fs =
     (list_all (\<lambda>l. CHR 0x0A \<notin> set l) ls
      \<and> list_all2 (\<lambda>l f. line_fragment JSON_parse l = Some f)
            (takeWhile (\<lambda>l. l \<noteq> ''data: [DONE]'') ls) fs)"

text \<open>A text that does not end in white space.\<close>

definition no_trailing_space :: "string \<Rightarrow> bool" where
  "no_trailing_space s = (case rev s of [] \<Rightarrow> True | c # _ \<Rightarrow> \<not> is_space c)"

text \<open>The condition on a sequence of fragments under which trimming the first fragment
  that holds a character other than white space is trimming the whole text: nothing
  follows that fragment, or neither that fragment nor what follows it ends in white
  space.\<close>

definition trim_agrees :: "string list \<Rightarrow> bool" where
  "trim_agrees fs =
     (case dropWhile (list_all is_space) fs of
        [] \<Rightarrow> True
      | f # rest \<Rightarrow>
          concat rest = [] \<or> (no_trailing_space f \<and> no_trailing_space (concat rest)))"

text \<open>Lines 87 to 96 on a sequence of contents, one after the other.\<close>

fun feed :: "bool \<Rightarrow> state \<Rightarrow> string list \<Rightarrow> state" where
  "feed handler st [] = st"
| "feed handler st (f # fs) =
     feed handler (if f = [] then st else accumulate handler st f) fs"

section \<open>Properties of the streaming decoder\<close>

subsection \<open>Basic facts\<close>

lemma parse_no_prefix: "take 6 line \<noteq> ''data: '' \<Longrightarrow> parse jp line = Val JNull"
  by (simp add: parse_def)

lemma parse_syntax_error: "jp (drop 6 line) = None \<Longrightarrow> parse jp line = Val JNull"
  by (simp add: parse_def Let_def)

lemma parse_not_null_prefix:
  assumes "parse jp line \<noteq> Val JNull"
  shows "take 6 line = ''data: ''" and "take 1 line = ''d''" and "line \<noteq> []"
proof -
  show p: "take 6 line = ''data: ''"
    using assms parse_no_prefix by blast
  have "take 1 (take 6 line) = take 1 line" by simp
  with p show "take 1 line = ''d''" by simp
  then show "line \<noteq> []" by auto
qed

lemma accumulate_buffer: "accumulate h (st\<lparr>buffer := b\<rparr>) p = accumulate h st p"
  by (simp add: accumulate_def Let_def)

lemma split_lines_line:
  "CHR 0x0A \<notin> set l \<Longrightarrow> split_lines (l @ CHR 0x0A # after) = l # split_lines after"
  by (induction l) auto

lemma split_lines_no_newline: "CHR 0x0A \<notin> set l \<Longrightarrow> split_lines l = [l]"
  by (induction l) auto

lemma read_loop_append:
  "read_loop jp h st (cs @ cs') =
     (case read_loop jp h st cs of Inl e \<Rightarrow> Inl e | Inr st' \<Rightarrow> read_loop jp h st' cs')"
  by (induction cs arbitrary: st) (auto split: sum.splits)

lemma trim_blank: "list_all is_space p \<Longrightarrow> trim p = []"
proof -
  assume "list_all is_space p"
  then have d: "dropWhile is_space p = []"
    by (induction p) auto
  show ?thesis unfolding trim_def d by simp
qed

lemma trim_blank_append: "list_all is_space f \<Longrightarrow> trim (f @ g) = trim g"
proof -
  assume "list_all is_space f"
  then have "dropWhile is_space (f @ g) = dropWhile is_space g"
    by (induction f) auto
  then show ?thesis unfolding trim_def by simp
qed

lemma dropWhile_append_content:
  "\<not> list_all is_space f \<Longrightarrow> dropWhile is_space (f @ g) = dropWhile is_space f @ g"
  by (induction f) auto

lemma no_trailing_space_iff: "no_trailing_space s \<longleftrightarrow> (s = [] \<or> \<not> is_space (last s))"
  by (cases s rule: rev_cases) (simp_all add: no_trailing_space_def)

subsection \<open>The fragments sent are the answer\<close>

lemma accumulate_concat:
  "concat (sent st) = answer st \<Longrightarrow>
   concat (sent (accumulate True st p)) = answer (accumulate True st p)"
  by (simp add: accumulate_def Let_def)

lemma on_partial_concat:
  "on_partial True st line v = Inr st' \<Longrightarrow> concat (sent st) = answer st \<Longrightarrow>
   concat (sent st') = answer st'"
  by (induction True st line v rule: on_partial.induct)
     (auto simp: accumulate_concat split: if_splits jsval.splits)

lemma line_step_concat:
  "line_step jp True st raw = Inr (fl, st') \<Longrightarrow> concat (sent st) = answer st \<Longrightarrow>
   concat (sent st') = answer st'"
  by (auto simp: line_step_def Let_def split: if_splits sum.splits dest: on_partial_concat)

lemma for_lines_concat:
  "for_lines jp True st ls = Inr st' \<Longrightarrow> concat (sent st) = answer st \<Longrightarrow>
   concat (sent st') = answer st'"
proof (induction ls arbitrary: st)
  case Nil
  then show ?case by simp
next
  case (Cons raw rest)
  then show ?case
    by (auto split: sum.splits flow.splits dest: line_step_concat)
qed

lemma read_loop_concat:
  "read_loop jp True st cs = Inr st' \<Longrightarrow> concat (sent st) = answer st \<Longrightarrow>
   concat (sent st') = answer st'"
proof (induction cs arbitrary: st)
  case Nil
  then show ?case by simp
next
  case (Cons c cs)
  then show ?case
    by (auto simp: on_chunk_def split: sum.splits dest: for_lines_concat)
qed

text \<open>
  C2, fragment concatenation law. Whenever a streaming call of \<open>chat\<close> with an observer
  returns, the fragments it passed to the observer, concatenated in the order of the
  calls, are the answer it returns. The theorem holds for every behaviour of
  \<^verbatim>\<open>JSON.parse\<close> and every chunking of the body.
\<close>

theorem fragment_concatenation:
  "chat JSON_parse True True resp = Inr (a, fr) \<Longrightarrow> concat fr = a"
  by (auto simp: chat_def initial_def split: if_splits sum.splits dest!: read_loop_concat)

theorem fragment_concatenation_witness:
  \<open>chat json_parse True True
     \<lparr>ok = True, status = 200, statusText = ''OK'',
      body = [''data: {"choices":[{"delta":{"content":" Hel"}}]}\<newline>\<newline>data: {"choi'',
              ''ces":[{"delta":{"content":"lo "}}]}\<newline>'']\<rparr>
     = Inr (''Hello '', [''Hel'', ''lo ''])
   \<and> concat [''Hel'', ''lo ''] = ''Hello ''\<close>
proof -
  have run: \<open>chat json_parse True True
     \<lparr>ok = True, status = 200, statusText = ''OK'',
      body = [''data: {"choices":[{"delta":{"content":" Hel"}}]}\<newline>\<newline>data: {"choi'',
              ''ces":[{"delta":{"content":"lo "}}]}\<newline>'']\<rparr>
     = Inr (''Hello '', [''Hel'', ''lo ''])\<close>
    by code_simp
  from fragment_concatenation [OF run] run show ?thesis by simp
qed

subsection \<open>The terminator\<close>

text \<open>
  C6, same-chunk termination scenario. A candidate line that is the terminator text ends
  the line loop of its chunk: the pieces after it are not processed and the state is
  returned as it is. In the scenario the first chunk carries a data line with the delta
  \<open>Hi\<close>; the second carries the line \<^verbatim>\<open>data: [DONE]\<close> and after it, in the same
  chunk, a data line with the delta \<open> there\<close>. The decoder ends with the answer \<open>Hi\<close>
  and no pending line, the observer receives the single fragment \<open>Hi\<close> and the call
  returns \<open>Hi\<close>. Without the terminator line the same two data lines give \<open>Hi there\<close>.
\<close>

theorem termination_scenario:
  \<open>(buffer st @ raw = ''data: [DONE]'' \<longrightarrow>
      for_lines JSON_parse handler st (raw # rest) = Inr st)
   \<and> read_loop json_parse True initial
       [''data: {"choices":[{"delta":{"content":"Hi"}}]}\<newline>'',
        ''data: [DONE]\<newline>data: {"choices":[{"delta":{"content":" there"}}]}\<newline>'']
     = Inr \<lparr>answer = ''Hi'', buffer = [], sent = [''Hi'']\<rparr>
   \<and> chat json_parse True True
     \<lparr>ok = True, status = 200, statusText = ''OK'',
      body = [''data: {"choices":[{"delta":{"content":"Hi"}}]}\<newline>'',
              ''data: [DONE]\<newline>data: {"choices":[{"delta":{"content":" there"}}]}\<newline>'']\<rparr>
     = Inr (''Hi'', [''Hi''])
   \<and> chat json_parse True True
     \<lparr>ok = True, status = 200, statusText = ''OK'',
      body = [''data: {"choices":[{"delta":{"content":"Hi"}}]}\<newline>'',
              ''data: {"choices":[{"delta":{"content":" there"}}]}\<newline>'']\<rparr>
     = Inr (''Hi there'', [''Hi'', '' there''])\<close>
proof -
  have general: "buffer st @ raw = ''data: [DONE]'' \<longrightarrow>
      for_lines JSON_parse handler st (raw # rest) = Inr st"
    by (simp add: line_step_def)
  have state: \<open>read_loop json_parse True initial
       [''data: {"choices":[{"delta":{"content":"Hi"}}]}\<newline>'',
        ''data: [DONE]\<newline>data: {"choices":[{"delta":{"content":" there"}}]}\<newline>'']
     = Inr \<lparr>answer = ''Hi'', buffer = [], sent = [''Hi'']\<rparr>\<close>
    by code_simp
  have scenario: \<open>chat json_parse True True
     \<lparr>ok = True, status = 200, statusText = ''OK'',
      body = [''data: {"choices":[{"delta":{"content":"Hi"}}]}\<newline>'',
              ''data: [DONE]\<newline>data: {"choices":[{"delta":{"content":" there"}}]}\<newline>'']\<rparr>
     = Inr (''Hi'', [''Hi''])\<close>
    by code_simp
  have without: \<open>chat json_parse True True
     \<lparr>ok = True, status = 200, statusText = ''OK'',
      body = [''data: {"choices":[{"delta":{"content":"Hi"}}]}\<newline>'',
              ''data: {"choices":[{"delta":{"content":" there"}}]}\<newline>'']\<rparr>
     = Inr (''Hi there'', [''Hi'', '' there''])\<close>
    by code_simp
  from general state scenario without show ?thesis by blast
qed

theorem termination_scenario_witness:
  \<open>buffer \<lparr>answer = ''Hi'', buffer = [], sent = [''Hi'']\<rparr> @ ''data: [DONE]'' = ''data: [DONE]''
   \<and> for_lines json_parse True \<lparr>answer = ''Hi'', buffer = [], sent = [''Hi'']\<rparr>
        [''data: [DONE]'', ''data: {"choices":[{"delta":{"content":" there"}}]}'', []]
       = Inr \<lparr>answer = ''Hi'', buffer = [], sent = [''Hi'']\<rparr>
   \<and> for_lines json_parse True \<lparr>answer = ''Hi'', buffer = [], sent = [''Hi'']\<rparr>
        [''data: {"choices":[{"delta":{"content":" there"}}]}'', []]
       = Inr \<lparr>answer = ''Hi there'', buffer = [], sent = [''Hi'', '' there'']\<rparr>\<close>
proof -
  have a: \<open>buffer \<lparr>answer = ''Hi'', buffer = [], sent = [''Hi'']\<rparr> @ ''data: [DONE]''
      = ''data: [DONE]''\<close> by simp
  have b: \<open>for_lines json_parse True \<lparr>answer = ''Hi'', buffer = [], sent = [''Hi'']\<rparr>
        [''data: {"choices":[{"delta":{"content":" there"}}]}'', []]
       = Inr \<lparr>answer = ''Hi there'', buffer = [], sent = [''Hi'', '' there'']\<rparr>\<close>
    by code_simp
  have \<open>for_lines json_parse True \<lparr>answer = ''Hi'', buffer = [], sent = [''Hi'']\<rparr>
        [''data: [DONE]'', ''data: {"choices":[{"delta":{"content":" there"}}]}'', []]
       = Inr \<lparr>answer = ''Hi'', buffer = [], sent = [''Hi'']\<rparr>\<close>
    using termination_scenario [where st = \<open>\<lparr>answer = ''Hi'', buffer = [], sent = [''Hi'']\<rparr>\<close>
        and raw = \<open>''data: [DONE]''\<close> and JSON_parse = json_parse and handler = True
        and rest = \<open>[''data: {"choices":[{"delta":{"content":" there"}}]}'', []]\<close>] a
    by blast
  with a b show ?thesis by blast
qed

text \<open>
  C7, return on end-of-stream. The read loop returns the state it has accumulated when
  the reader reports \<open>done\<close>, and only then: a further chunk is always processed, on the
  state the chunks before it have left, whether or not one of them held the terminator.
  The terminator ends the line loop of its own chunk only (the pieces \<open>after\<close> it are
  skipped, the state is unchanged); in the last conjunct the data line of the chunk that
  follows the terminator extends the answer and is sent to the observer.
\<close>

theorem return_on_end_of_stream:
  \<open>read_loop JSON_parse handler st [] = Inr st
   \<and> read_loop JSON_parse handler st (chunks @ [chunk]) =
       (case read_loop JSON_parse handler st chunks of
          Inl e \<Rightarrow> Inl e
        | Inr st' \<Rightarrow> on_chunk JSON_parse handler st' chunk)
   \<and> on_chunk JSON_parse handler (st\<lparr>buffer := []\<rparr>) (''data: [DONE]'' @ CHR 0x0A # after)
       = Inr (st\<lparr>buffer := []\<rparr>)
   \<and> chat json_parse True True
       \<lparr>ok = True, status = 200, statusText = ''OK'',
        body = [''data: {"choices":[{"delta":{"content":"Hi"}}]}\<newline>data: [DONE]\<newline>'',
                ''data: {"choices":[{"delta":{"content":" there"}}]}\<newline>'']\<rparr>
       = Inr (''Hi there'', [''Hi'', '' there''])\<close>
proof -
  have a: "read_loop JSON_parse handler st [] = Inr st" by simp
  have b: "read_loop JSON_parse handler st (chunks @ [chunk]) =
       (case read_loop JSON_parse handler st chunks of
          Inl e \<Rightarrow> Inl e
        | Inr st' \<Rightarrow> on_chunk JSON_parse handler st' chunk)"
    by (simp add: read_loop_append split: sum.splits)
  have "split_lines (''data: [DONE]'' @ CHR 0x0A # after) = ''data: [DONE]'' # split_lines after"
    by (rule split_lines_line) simp
  then have c: "on_chunk JSON_parse handler (st\<lparr>buffer := []\<rparr>) (''data: [DONE]'' @ CHR 0x0A # after)
       = Inr (st\<lparr>buffer := []\<rparr>)"
    by (simp add: on_chunk_def line_step_def)
  have d: \<open>chat json_parse True True
       \<lparr>ok = True, status = 200, statusText = ''OK'',
        body = [''data: {"choices":[{"delta":{"content":"Hi"}}]}\<newline>data: [DONE]\<newline>'',
                ''data: {"choices":[{"delta":{"content":" there"}}]}\<newline>'']\<rparr>
       = Inr (''Hi there'', [''Hi'', '' there''])\<close>
    by code_simp
  from a b c d show ?thesis by blast
qed

subsection \<open>Lines that parse yields null for\<close>

text \<open>
  C9, fragment parse failures are swallowed. A candidate line (the pending text followed
  by the piece of the chunk) that reaches \<open>parse\<close>, being non-empty, no comment and not the
  terminator, and that lacks the \<^verbatim>\<open>data: \<close> prefix or has a payload \<^verbatim>\<open>JSON.parse\<close>
  rejects, raises no error: it becomes the pending line, the answer and the fragments
  sent stay as they are, and the line loop goes on with the remaining pieces.
\<close>

theorem parse_failure_swallowed:
  assumes "buffer st @ raw \<noteq> []"
    and "take 1 (buffer st @ raw) \<noteq> '':''"
    and "buffer st @ raw \<noteq> ''data: [DONE]''"
    and "take 6 (buffer st @ raw) \<noteq> ''data: '' \<or> JSON_parse (drop 6 (buffer st @ raw)) = None"
  shows "line_step JSON_parse handler st raw = Inr (Continue, st\<lparr>buffer := buffer st @ raw\<rparr>)
       \<and> for_lines JSON_parse handler st (raw # rest)
           = for_lines JSON_parse handler (st\<lparr>buffer := buffer st @ raw\<rparr>) rest"
proof -
  have null: "parse JSON_parse (buffer st @ raw) = Val JNull"
    using assms(4) parse_no_prefix parse_syntax_error by blast
  have step: "line_step JSON_parse handler st raw = Inr (Continue, st\<lparr>buffer := buffer st @ raw\<rparr>)"
    using assms(1-3) null by (simp add: line_step_def Let_def)
  then show ?thesis by simp
qed

theorem parse_failure_swallowed_witness:
  \<open>buffer initial @ ''data: {"choi'' \<noteq> []
   \<and> take 1 (buffer initial @ ''data: {"choi'') \<noteq> '':''
   \<and> buffer initial @ ''data: {"choi'' \<noteq> ''data: [DONE]''
   \<and> json_parse (drop 6 (buffer initial @ ''data: {"choi'')) = None
   \<and> line_step json_parse True initial ''data: {"choi''
        = Inr (Continue, \<lparr>answer = [], buffer = ''data: {"choi'', sent = []\<rparr>)\<close>
proof -
  have a: \<open>buffer initial @ ''data: {"choi'' \<noteq> []\<close> by simp
  have b: \<open>take 1 (buffer initial @ ''data: {"choi'') \<noteq> '':''\<close> by (simp add: initial_def)
  have c: \<open>buffer initial @ ''data: {"choi'' \<noteq> ''data: [DONE]''\<close> by (simp add: initial_def)
  have d: \<open>json_parse (drop 6 (buffer initial @ ''data: {"choi'')) = None\<close> by code_simp
  from d have d': \<open>take 6 (buffer initial @ ''data: {"choi'') \<noteq> ''data: ''
      \<or> json_parse (drop 6 (buffer initial @ ''data: {"choi'')) = None\<close> by blast
  from parse_failure_swallowed
         [where st = initial and raw = \<open>''data: {"choi''\<close> and JSON_parse = json_parse
            and handler = True and rest = "[]", OF a b c d'] a b c d
  show ?thesis by (simp add: initial_def)
qed

subsection \<open>Lines that parse, with no content\<close>

text \<open>
  C8, parse success clears the pending line: the source does not. The first chunk ends
  inside a data line, which becomes the pending line. The second chunk completes the line;
  its payload parses (to an event whose delta has no content), and the pending line is
  still the first half afterwards: line 88 empties \<open>buffer\<close> only for a content of
  positive length.
\<close>

theorem pending_line_kept_after_parse:
  \<open>read_loop json_parse True initial [''data: {"choices":[{"del'']
     = Inr \<lparr>answer = [], buffer = ''data: {"choices":[{"del'', sent = []\<rparr>
   \<and> json_parse (drop 6 (''data: {"choices":[{"del'' @ ''ta":{}}]}''))
     = Some (JObj [(''choices'', JArr [JObj [(''delta'', JObj [])]])])
   \<and> line_step json_parse True \<lparr>answer = [], buffer = ''data: {"choices":[{"del'', sent = []\<rparr>
        ''ta":{}}]}''
     = Inr (Continue, \<lparr>answer = [], buffer = ''data: {"choices":[{"del'', sent = []\<rparr>)\<close>
  by code_simp

text \<open>
  What follows from it: the pending half is put before every later piece. The stream
  holds an event whose delta has a role and no content, then an event with the delta
  \<open>Hi\<close>. In one chunk, the answer is \<open>Hi\<close>; with the first line cut in two chunks,
  the answer is empty and nothing is sent.
\<close>

lemma stale_pending_line_loses_answer:
  \<open>chat json_parse True True
     \<lparr>ok = True, status = 200, statusText = ''OK'',
      body = [''data: {"choices":[{"delta":{"role":"assistant"}}]}\<newline>data: {"choices":[{"delta":{"content":"Hi"}}]}\<newline>'']\<rparr>
     = Inr (''Hi'', [''Hi''])
   \<and> chat json_parse True True
     \<lparr>ok = True, status = 200, statusText = ''OK'',
      body = [''data: {"choices":[{"delta":{"ro'',
              ''le":"assistant"}}]}\<newline>data: {"choices":[{"delta":{"content":"Hi"}}]}\<newline>'']\<rparr>
     = Inr ([], [])\<close>
  by code_simp

subsection \<open>Comment lines\<close>

text \<open>
  C5, comment immunity, as amended. A candidate line is the pending text followed by the
  piece of the chunk. When its first character is a colon the decoder empties the pending
  line and goes on with the next piece; the answer and the fragments sent stay as they
  are. This covers a comment that arrives while no line is pending. It does not cover a
  comment that arrives between the two halves of a split data line: the candidate line
  then starts with the pending half, as the evaluation after the theorem shows.
\<close>

theorem comment_line_skipped:
  assumes "take 1 (buffer st @ raw) = '':''"
  shows "line_step JSON_parse handler st raw = Inr (Continue, st\<lparr>buffer := []\<rparr>)
       \<and> for_lines JSON_parse handler st (raw # rest)
           = for_lines JSON_parse handler (st\<lparr>buffer := []\<rparr>) rest"
  using assms by (simp add: line_step_def Let_def)

theorem comment_line_skipped_witness:
  \<open>take 1 (buffer initial @ '': ping'') = '':''
   \<and> line_step json_parse True initial '': ping'' = Inr (Continue, initial)
   \<and> for_lines json_parse True initial ['': ping'', ''data: {"choices":[{"delta":{"content":"Hi"}}]}'']
       = for_lines json_parse True initial [''data: {"choices":[{"delta":{"content":"Hi"}}]}'']\<close>
proof -
  have a: \<open>take 1 (buffer initial @ '': ping'') = '':''\<close> by (simp add: initial_def)
  have i: "initial\<lparr>buffer := []\<rparr> = initial" by (simp add: initial_def)
  from comment_line_skipped [OF a, of json_parse True] a i
  show ?thesis by simp
qed

text \<open>
  The claim as stated fails: a data line with the delta \<open>Hello\<close> is split after \<open>Hel\<close>
  and the comment line \<^verbatim>\<open>: ping\<close> arrives between the halves. The comment is joined to
  the pending half and the observer receives \<open>Hel: pinglo\<close>; without the comment it
  receives \<open>Hello\<close>.
\<close>

theorem comment_between_halves_counterexample:
  \<open>chat json_parse True True
     \<lparr>ok = True, status = 200, statusText = ''OK'',
      body = [''data: {"choices":[{"delta":{"content":"Hel'',
              '': ping\<newline>'',
              ''lo"}}]}\<newline>'']\<rparr>
     = Inr (''Hel: pinglo'', [''Hel: pinglo''])
   \<and> chat json_parse True True
     \<lparr>ok = True, status = 200, statusText = ''OK'',
      body = [''data: {"choices":[{"delta":{"content":"Hel'',
              ''lo"}}]}\<newline>'']\<rparr>
     = Inr (''Hello'', [''Hello''])\<close>
  by code_simp

subsection \<open>The trim of the first fragment\<close>

text \<open>
  C3, single trim invariant, as amended. A fragment of positive length that arrives while
  the answer is empty is stored with the white space at both of its ends removed, and is
  sent in that form unless nothing is left of it; a fragment of positive length that
  arrives once the answer is non-empty is appended to the answer and sent as it is.
\<close>

theorem single_trim:
  assumes "parse JSON_parse (buffer st @ raw) = Val (JStr p)"
    and "p \<noteq> []"
    and "buffer st @ raw \<noteq> ''data: [DONE]''"
  shows "line_step JSON_parse True st raw =
           Inr (Continue,
             if answer st = []
             then st\<lparr>buffer := [], answer := trim p,
                    sent := (if trim p = [] then sent st else sent st @ [trim p])\<rparr>
             else st\<lparr>buffer := [], answer := answer st @ p, sent := sent st @ [p]\<rparr>)"
proof -
  have "parse JSON_parse (buffer st @ raw) \<noteq> Val JNull" using assms(1) by simp
  then have "take 1 (buffer st @ raw) = ''d''" and "buffer st @ raw \<noteq> []"
    by (rule parse_not_null_prefix)+
  then show ?thesis
    using assms by (simp add: line_step_def Let_def accumulate_def)
qed

theorem single_trim_witness:
  \<open>parse json_parse (buffer \<lparr>answer = ''Hi'', buffer = [], sent = [''Hi'']\<rparr>
        @ ''data: {"choices":[{"delta":{"content":" there "}}]}'') = Val (JStr '' there '')
   \<and> '' there '' \<noteq> []
   \<and> line_step json_parse True \<lparr>answer = ''Hi'', buffer = [], sent = [''Hi'']\<rparr>
         ''data: {"choices":[{"delta":{"content":" there "}}]}''
       = Inr (Continue, \<lparr>answer = ''Hi there '', buffer = [], sent = [''Hi'', '' there '']\<rparr>)\<close>
proof -
  have a: \<open>parse json_parse (buffer \<lparr>answer = ''Hi'', buffer = [], sent = [''Hi'']\<rparr>
        @ ''data: {"choices":[{"delta":{"content":" there "}}]}'') = Val (JStr '' there '')\<close>
    by code_simp
  have b: \<open>'' there '' \<noteq> []\<close> by simp
  have c: \<open>buffer \<lparr>answer = ''Hi'', buffer = [], sent = [''Hi'']\<rparr>
        @ ''data: {"choices":[{"delta":{"content":" there "}}]}'' \<noteq> ''data: [DONE]''\<close>
    by simp
  from single_trim [OF a b c] a b show ?thesis by simp
qed

text \<open>
  The claim as stated fails twice. The white space at the end of the first fragment is
  not kept: the deltas \<open>Hi \<close> and \<open>there\<close> give \<open>Hithere\<close>. And the trim is not
  confined to the first non-empty fragment: after the delta of one space, the delta
  \<open> Hi\<close> loses its leading space.
\<close>

theorem single_trim_counterexample:
  \<open>chat json_parse True True
     \<lparr>ok = True, status = 200, statusText = ''OK'',
      body = [''data: {"choices":[{"delta":{"content":"Hi "}}]}\<newline>'',
              ''data: {"choices":[{"delta":{"content":"there"}}]}\<newline>'']\<rparr>
     = Inr (''Hithere'', [''Hi'', ''there''])
   \<and> chat json_parse True True
     \<lparr>ok = True, status = 200, statusText = ''OK'',
      body = [''data: {"choices":[{"delta":{"content":" "}}]}\<newline>'',
              ''data: {"choices":[{"delta":{"content":" Hi"}}]}\<newline>'']\<rparr>
     = Inr (''Hi'', [''Hi''])\<close>
  by code_simp

text \<open>
  C10, white-space-only fragments before the first content are dropped. While the answer
  is empty, a data line whose delta is non-empty and all white space changes neither the
  answer nor the fragments sent (the pending line is emptied, as for every content); the
  answer is still empty, so the fragment of the next data line is trimmed in its turn.
\<close>

theorem whitespace_only_fragment_dropped:
  assumes "answer st = []"
    and "parse JSON_parse (buffer st @ raw) = Val (JStr p)"
    and "p \<noteq> []"
    and "list_all is_space p"
    and "buffer st @ raw \<noteq> ''data: [DONE]''"
    and "parse JSON_parse raw' = Val (JStr q)"
    and "q \<noteq> []"
    and "raw' \<noteq> ''data: [DONE]''"
  shows "line_step JSON_parse handler st raw = Inr (Continue, st\<lparr>buffer := []\<rparr>)
       \<and> line_step JSON_parse handler (st\<lparr>buffer := []\<rparr>) raw' =
           Inr (Continue, st\<lparr>buffer := [], answer := trim q,
                  sent := (if handler \<and> trim q \<noteq> [] then sent st @ [trim q] else sent st)\<rparr>)"
proof -
  have blank: "trim p = []"
    using assms(4) by (rule trim_blank)
  have "parse JSON_parse (buffer st @ raw) \<noteq> Val JNull" using assms(2) by simp
  then have d: "take 1 (buffer st @ raw) = ''d''" and n: "buffer st @ raw \<noteq> []"
    by (rule parse_not_null_prefix)+
  have first: "line_step JSON_parse handler st raw = Inr (Continue, st\<lparr>buffer := []\<rparr>)"
    using assms(1,2,3,5) d n blank
    by (cases st) (simp add: line_step_def Let_def accumulate_def)
  have "parse JSON_parse raw' \<noteq> Val JNull" using assms(6) by simp
  then have d': "take 1 raw' = ''d''" and n': "raw' \<noteq> []"
    by (rule parse_not_null_prefix)+
  have second: "line_step JSON_parse handler (st\<lparr>buffer := []\<rparr>) raw' =
           Inr (Continue, st\<lparr>buffer := [], answer := trim q,
                  sent := (if handler \<and> trim q \<noteq> [] then sent st @ [trim q] else sent st)\<rparr>)"
    using assms(1,6,7,8) d' n'
    by (simp add: line_step_def Let_def accumulate_def)
  from first second show ?thesis by simp
qed

theorem whitespace_only_fragment_dropped_witness:
  \<open>answer initial = []
   \<and> parse json_parse (buffer initial @ ''data: {"choices":[{"delta":{"content":"  "}}]}'')
       = Val (JStr ''  '')
   \<and> list_all is_space ''  ''
   \<and> parse json_parse ''data: {"choices":[{"delta":{"content":" Hi"}}]}'' = Val (JStr '' Hi'')
   \<and> line_step json_parse True initial ''data: {"choices":[{"delta":{"content":"  "}}]}''
       = Inr (Continue, initial)
   \<and> line_step json_parse True initial ''data: {"choices":[{"delta":{"content":" Hi"}}]}''
       = Inr (Continue, \<lparr>answer = ''Hi'', buffer = [], sent = [''Hi'']\<rparr>)\<close>
proof -
  have a: \<open>answer initial = []\<close> by (simp add: initial_def)
  have b: \<open>parse json_parse (buffer initial @ ''data: {"choices":[{"delta":{"content":"  "}}]}'')
       = Val (JStr ''  '')\<close> by code_simp
  have c: \<open>''  '' \<noteq> []\<close> by simp
  have d: \<open>list_all is_space ''  ''\<close> by (simp add: is_space_def)
  have e: \<open>buffer initial @ ''data: {"choices":[{"delta":{"content":"  "}}]}'' \<noteq> ''data: [DONE]''\<close>
    by (simp add: initial_def)
  have f: \<open>parse json_parse ''data: {"choices":[{"delta":{"content":" Hi"}}]}'' = Val (JStr '' Hi'')\<close>
    by code_simp
  have g: \<open>'' Hi'' \<noteq> []\<close> by simp
  have h: \<open>''data: {"choices":[{"delta":{"content":" Hi"}}]}'' \<noteq> ''data: [DONE]''\<close> by simp
  have t: \<open>trim '' Hi'' = ''Hi''\<close> by (simp add: trim_def is_space_def)
  have i: "initial\<lparr>buffer := []\<rparr> = initial" by (simp add: initial_def)
  from whitespace_only_fragment_dropped [OF a b c d e f g h, of True] a b d f t i
  show ?thesis by (simp add: initial_def)
qed

subsection \<open>Lines split over two chunks\<close>

text \<open>
  C4, split-line reassembly, as amended. No line is pending. A data line whose payload
  parses to a content of positive length is cut into a first part \<open>l1\<close>, for which
  \<open>parse\<close> yields null and which is not the terminator text, and a second part \<open>l2\<close>.
  Delivered as the end of one chunk and the start of the next, the two parts leave the
  decoder in the state the whole line leaves it in, so the answer returned and the
  fragments sent are the same, whatever follows the line.
\<close>

theorem split_line_reassembled:
  assumes "buffer st = []"
    and "CHR 0x0A \<notin> set (l1 @ l2)"
    and "parse JSON_parse (l1 @ l2) = Val (JStr p)" and "p \<noteq> []"
    and "l1 @ l2 \<noteq> ''data: [DONE]''"
    and "parse JSON_parse l1 = Val JNull" and "l1 \<noteq> ''data: [DONE]''"
  shows "read_loop JSON_parse handler st (l1 # (l2 @ CHR 0x0A # after) # chunks)
       = read_loop JSON_parse handler st ((l1 @ l2 @ CHR 0x0A # after) # chunks)"
proof -
  define line where "line = l1 @ l2"
  have "parse JSON_parse line \<noteq> Val JNull" using assms(3) by (simp add: line_def)
  then have d: "take 1 line = ''d''" and n: "line \<noteq> []"
    by (rule parse_not_null_prefix)+
  have c1: "take 1 l1 \<noteq> '':''"
  proof (cases l1)
    case Nil
    then show ?thesis by simp
  next
    case (Cons c cs)
    then have "take 1 l1 = take 1 line" by (simp add: line_def)
    then show ?thesis using d by simp
  qed
  have nl1: "CHR 0x0A \<notin> set l1" and nl2: "CHR 0x0A \<notin> set l2" and nl: "CHR 0x0A \<notin> set line"
    using assms(2) by (simp_all add: line_def)
  have whole_lines: "split_lines (l1 @ l2 @ CHR 0x0A # after) = line # split_lines after"
    using split_lines_line [OF nl, of after] by (simp add: line_def)
  have whole_step: "line_step JSON_parse handler st line = Inr (Continue, accumulate handler st p)"
    using assms(1,3,4,5) d n by (simp add: line_step_def Let_def line_def)
  have first: "on_chunk JSON_parse handler st l1 = Inr (st\<lparr>buffer := l1\<rparr>)"
  proof (cases "l1 = []")
    case True
    then show ?thesis using assms(1) by (cases st) (simp add: on_chunk_def line_step_def)
  next
    case False
    then show ?thesis
      using assms(1,6,7) c1 split_lines_no_newline [OF nl1]
      by (simp add: on_chunk_def line_step_def Let_def)
  qed
  have second_step:
    "line_step JSON_parse handler (st\<lparr>buffer := l1\<rparr>) l2 = Inr (Continue, accumulate handler st p)"
    using assms(3,4,5) d n
    by (simp add: line_step_def Let_def line_def accumulate_buffer del: append_eq_append_conv)
  have "on_chunk JSON_parse handler (st\<lparr>buffer := l1\<rparr>) (l2 @ CHR 0x0A # after)
      = on_chunk JSON_parse handler st (l1 @ l2 @ CHR 0x0A # after)"
    unfolding on_chunk_def whole_lines split_lines_line [OF nl2]
    using whole_step second_step by simp
  then show ?thesis using first by simp
qed

theorem split_line_reassembled_witness:
  \<open>buffer initial = []
   \<and> CHR 0x0A \<notin> set (''data: {"choices":[{"del'' @ ''ta":{"content":"Hi"}}]}'')
   \<and> parse json_parse (''data: {"choices":[{"del'' @ ''ta":{"content":"Hi"}}]}'') = Val (JStr ''Hi'')
   \<and> parse json_parse ''data: {"choices":[{"del'' = Val JNull
   \<and> read_loop json_parse True initial
        [''data: {"choices":[{"del'', ''ta":{"content":"Hi"}}]}'' @ CHR 0x0A # []]
       = read_loop json_parse True initial
        [''data: {"choices":[{"del'' @ ''ta":{"content":"Hi"}}]}'' @ CHR 0x0A # []]
   \<and> read_loop json_parse True initial
        [''data: {"choices":[{"del'', ''ta":{"content":"Hi"}}]}'' @ CHR 0x0A # []]
       = Inr \<lparr>answer = ''Hi'', buffer = [], sent = [''Hi'']\<rparr>\<close>
proof -
  have a: \<open>buffer initial = []\<close> by (simp add: initial_def)
  have b: \<open>CHR 0x0A \<notin> set (''data: {"choices":[{"del'' @ ''ta":{"content":"Hi"}}]}'')\<close> by simp
  have c: \<open>parse json_parse (''data: {"choices":[{"del'' @ ''ta":{"content":"Hi"}}]}'') = Val (JStr ''Hi'')\<close>
    by code_simp
  have d: \<open>''Hi'' \<noteq> []\<close> by simp
  have e: \<open>''data: {"choices":[{"del'' @ ''ta":{"content":"Hi"}}]}'' \<noteq> ''data: [DONE]''\<close> by simp
  have f: \<open>parse json_parse ''data: {"choices":[{"del'' = Val JNull\<close> by code_simp
  have g: \<open>''data: {"choices":[{"del'' \<noteq> ''data: [DONE]''\<close> by simp
  have r: \<open>read_loop json_parse True initial
        [''data: {"choices":[{"del'', ''ta":{"content":"Hi"}}]}'' @ CHR 0x0A # []]
       = Inr \<lparr>answer = ''Hi'', buffer = [], sent = [''Hi'']\<rparr>\<close>
    by code_simp
  from split_line_reassembled [OF a b c d e f g, of True "[]" "[]"] a b c f r
  show ?thesis by blast
qed

text \<open>
  The claim as stated fails where the first part is itself a line that parses: the data
  line ends in a space, which \<^verbatim>\<open>JSON.parse\<close> accepts after the value, and is cut before
  that space. The space is taken for the start of a new line and is put before every
  later piece; the event with the delta \<open> there\<close> is lost.
\<close>

theorem split_before_trailing_space_counterexample:
  \<open>chat json_parse True True
     \<lparr>ok = True, status = 200, statusText = ''OK'',
      body = [''data: {"choices":[{"delta":{"content":"Hi"}}]} \<newline>data: {"choices":[{"delta":{"content":" there"}}]}\<newline>'']\<rparr>
     = Inr (''Hi there'', [''Hi'', '' there''])
   \<and> chat json_parse True True
     \<lparr>ok = True, status = 200, statusText = ''OK'',
      body = [''data: {"choices":[{"delta":{"content":"Hi"}}]}'',
              '' \<newline>data: {"choices":[{"delta":{"content":" there"}}]}\<newline>'']\<rparr>
     = Inr (''Hi'', [''Hi''])\<close>
  by code_simp

subsection \<open>Buffered and streamed answers\<close>

lemma state_buffer_same: "buffer st = b \<Longrightarrow> st\<lparr>buffer := b\<rparr> = st"
  by (cases st) simp

lemma line_step_fragment:
  assumes "buffer st = []" and "l \<noteq> ''data: [DONE]''" and "line_fragment jp l = Some f"
  shows "line_step jp h st l = Inr (Continue, if f = [] then st else accumulate h st f)"
proof (cases "l = [] \<or> take 1 l = '':''")
  case True
  then have "f = []" using assms(3) by (simp add: line_fragment_def)
  then show ?thesis
    using True assms(1) by (auto simp: line_step_def Let_def state_buffer_same)
next
  case False
  then have cases: "parse jp l = Undefined \<and> f = [] \<or> parse jp l = Val (JStr f)"
    using assms(3) by (auto simp: line_fragment_def split: jsval.splits json.splits)
  then show ?thesis
    using False assms(1,2) by (auto simp: line_step_def Let_def)
qed

lemma feed_buffer: "buffer st = [] \<Longrightarrow> buffer (feed h st fs) = []"
  by (induction fs arbitrary: st) (simp_all add: accumulate_def Let_def)

lemma feed_append: "feed h st (fs @ gs) = feed h (feed h st fs) gs"
  by (induction fs arbitrary: st) simp_all

lemma for_lines_fragments:
  assumes "list_all2 (\<lambda>l f. line_fragment jp l = Some f \<and> l \<noteq> ''data: [DONE]'') ls fs"
  shows "buffer st = [] \<Longrightarrow> for_lines jp h st (ls @ more_lines) = for_lines jp h (feed h st fs) more_lines"
  using assms
proof (induction ls fs arbitrary: st rule: list_all2_induct)
  case Nil
  then show ?case by simp
next
  case (Cons l ls f fs)
  let ?st = "if f = [] then st else accumulate h st f"
  have step: "line_step jp h st l = Inr (Continue, ?st)"
    using Cons.hyps(1) Cons.prems by (simp add: line_step_fragment)
  have "buffer ?st = []" using Cons.prems by (simp add: accumulate_def Let_def)
  from Cons.IH [OF this] show ?case using step by simp
qed

lemma list_all2_with_left:
  "list_all2 P xs ys \<Longrightarrow> \<forall>x\<in>set xs. Q x \<Longrightarrow> list_all2 (\<lambda>x y. P x y \<and> Q x) xs ys"
  by (induction xs ys rule: list_all2_induct) simp_all

lemma split_lines_unlines:
  "list_all (\<lambda>l. CHR 0x0A \<notin> set l) ls \<Longrightarrow> split_lines (unlines ls) = ls @ [[]]"
proof (induction ls)
  case Nil
  then show ?case by (simp add: unlines_def)
next
  case (Cons l ls)
  then have nl: "CHR 0x0A \<notin> set l" and rest: "split_lines (unlines ls) = ls @ [[]]" by simp_all
  have "unlines (l # ls) = l @ CHR 0x0A # unlines ls" by (simp add: unlines_def)
  then show ?case using split_lines_line [OF nl, of "unlines ls"] rest by simp
qed

lemma for_lines_end:
  assumes "buffer st = []"
  shows "for_lines jp h st (dropWhile (\<lambda>l. l \<noteq> ''data: [DONE]'') ls @ [[]]) = Inr st"
proof (cases "dropWhile (\<lambda>l. l \<noteq> ''data: [DONE]'') ls")
  case Nil
  show ?thesis unfolding Nil using assms by (simp add: line_step_def)
next
  case (Cons d rest)
  have ne: "dropWhile (\<lambda>l. l \<noteq> ''data: [DONE]'') ls \<noteq> []" unfolding Cons by simp
  have "\<not> (hd (dropWhile (\<lambda>l. l \<noteq> ''data: [DONE]'') ls) \<noteq> ''data: [DONE]'')"
    using ne by (rule hd_dropWhile)
  then have d: "d = ''data: [DONE]''" unfolding Cons by simp
  show ?thesis unfolding Cons d using assms by (simp add: line_step_def)
qed

lemma on_chunk_lines:
  assumes "buffer st = []" and "chunk_fragments jp ls fs"
  shows "on_chunk jp h st (unlines ls) = Inr (feed h st fs)"
proof -
  let ?P = "\<lambda>l. l \<noteq> ''data: [DONE]''"
  have nl: "list_all (\<lambda>l. CHR 0x0A \<notin> set l) ls"
    and rel0: "list_all2 (\<lambda>l f. line_fragment jp l = Some f) (takeWhile ?P ls) fs"
    using assms(2) unfolding chunk_fragments_def by blast+
  have "split_lines (unlines ls) = ls @ [[]]" using nl by (rule split_lines_unlines)
  then have sp: "split_lines (unlines ls) = takeWhile ?P ls @ (dropWhile ?P ls @ [[]])"
    by (metis takeWhile_dropWhile_id append_assoc)
  have tw: "\<forall>l\<in>set (takeWhile ?P ls). ?P l" by (blast dest: set_takeWhileD)
  have rel: "list_all2 (\<lambda>l f. line_fragment jp l = Some f \<and> ?P l) (takeWhile ?P ls) fs"
    using rel0 tw by (rule list_all2_with_left)
  have b: "buffer (feed h st fs) = []" using assms(1) by (rule feed_buffer)
  have "for_lines jp h st (takeWhile ?P ls @ (dropWhile ?P ls @ [[]]))
      = for_lines jp h (feed h st fs) (dropWhile ?P ls @ [[]])"
    using rel assms(1) by (rule for_lines_fragments)
  also have "\<dots> = Inr (feed h st fs)" using b by (rule for_lines_end)
  finally show ?thesis unfolding on_chunk_def sp .
qed

lemma read_loop_chunks:
  assumes "list_all2 (chunk_fragments jp) lss fss"
  shows "buffer st = [] \<Longrightarrow> read_loop jp h st (map unlines lss) = Inr (feed h st (concat fss))"
  using assms
proof (induction lss fss arbitrary: st rule: list_all2_induct)
  case Nil
  then show ?case by simp
next
  case (Cons ls lss fs fss)
  have "buffer (feed h st fs) = []" using Cons.prems by (rule feed_buffer)
  from Cons.IH [OF this] show ?case
    using on_chunk_lines [OF Cons.prems Cons.hyps(1)] by (simp add: feed_append)
qed

lemma feed_answer_started:
  "answer st \<noteq> [] \<Longrightarrow> answer (feed h st fs) = answer st @ concat fs"
  by (induction fs arbitrary: st) (simp_all add: accumulate_def Let_def)

lemma trim_nonblank: "\<not> list_all is_space f \<Longrightarrow> trim f \<noteq> []"
proof -
  assume "\<not> list_all is_space f"
  then have ne: "dropWhile is_space f \<noteq> []"
    by (simp add: list_all_iff dropWhile_eq_Nil_conv)
  then have "\<not> is_space (hd (dropWhile is_space f))" by (rule hd_dropWhile)
  moreover have "hd (dropWhile is_space f) \<in> set (rev (dropWhile is_space f))"
    using ne by simp
  ultimately have "dropWhile is_space (rev (dropWhile is_space f)) \<noteq> []"
    by (auto simp: dropWhile_eq_Nil_conv)
  then show ?thesis by (simp add: trim_def)
qed

lemma feed_answer_fresh:
  "answer st = [] \<Longrightarrow>
   answer (feed h st fs) =
     (case dropWhile (list_all is_space) fs of [] \<Rightarrow> [] | f # rest \<Rightarrow> trim f @ concat rest)"
proof (induction fs arbitrary: st)
  case Nil
  then show ?case by simp
next
  case (Cons f fs)
  show ?case
  proof (cases "list_all is_space f")
    case True
    then have "trim f = []" by (rule trim_blank)
    then have "answer (if f = [] then st else accumulate h st f) = []"
      using Cons.prems by (simp add: accumulate_def Let_def)
    from Cons.IH [OF this] show ?thesis using True by simp
  next
    case False
    then have fne: "f \<noteq> []" by auto
    have a: "answer (accumulate h st f) = trim f"
      using Cons.prems by (simp add: accumulate_def Let_def)
    have "answer (accumulate h st f) \<noteq> []" using a trim_nonblank [OF False] by simp
    from feed_answer_started [OF this] show ?thesis using False fne a by simp
  qed
qed

lemma rtrim_last:
  "rev (dropWhile P (rev s)) = [] \<or> \<not> P (last (rev (dropWhile P (rev s))))"
proof (cases "dropWhile P (rev s) = []")
  case True
  then show ?thesis by simp
next
  case False
  then have "\<not> P (hd (dropWhile P (rev s)))" by (rule hd_dropWhile)
  then show ?thesis using False by (simp add: last_rev)
qed

lemma rtrim_id: "s \<noteq> [] \<Longrightarrow> \<not> P (last s) \<Longrightarrow> rev (dropWhile P (rev s)) = s"
  by (cases s rule: rev_cases) simp_all

lemma trim_append_agrees:
  assumes "\<not> list_all is_space f"
  shows "trim f @ r = trim (f @ r) \<longleftrightarrow> r = [] \<or> (no_trailing_space f \<and> no_trailing_space r)"
proof (cases "r = []")
  case True
  then show ?thesis by simp
next
  case False
  define g where "g = dropWhile is_space f"
  have gne: "g \<noteq> []"
    using assms by (simp add: g_def list_all_iff dropWhile_eq_Nil_conv)
  have fne: "f \<noteq> []" using assms by auto
  have "\<exists>pre. f = pre @ g" unfolding g_def by (metis takeWhile_dropWhile_id)
  then have lg: "last g = last f" using gne by (metis last_appendR)
  have tf: "trim f = rev (dropWhile is_space (rev g))" by (simp add: trim_def g_def)
  have tfr: "trim (f @ r) = rev (dropWhile is_space (rev (g @ r)))"
    using dropWhile_append_content [OF assms, of r] by (simp add: trim_def g_def)
  have lr: "last (g @ r) = last r" using False by simp
  show ?thesis
  proof
    assume eq: "trim f @ r = trim (f @ r)"
    have ne: "trim (f @ r) \<noteq> []" using eq False by (metis append_is_Nil_conv)
    have "last (trim (f @ r)) = last r" using eq False by (metis last_appendR)
    moreover have "\<not> is_space (last (trim (f @ r)))"
      using rtrim_last [of is_space "g @ r"] ne unfolding tfr by blast
    ultimately have nr: "\<not> is_space (last r)" by simp
    then have "trim (f @ r) = g @ r"
      unfolding tfr using lr gne by (intro rtrim_id) simp_all
    with eq have "trim f = g" by simp
    then have "rev (dropWhile is_space (rev g)) = g" using tf by simp
    then have "\<not> is_space (last g)"
      using rtrim_last [of is_space g] gne by auto
    then have "\<not> is_space (last f)" using lg by simp
    with nr show "r = [] \<or> (no_trailing_space f \<and> no_trailing_space r)"
      by (simp add: no_trailing_space_iff)
  next
    assume "r = [] \<or> (no_trailing_space f \<and> no_trailing_space r)"
    then have nf: "\<not> is_space (last f)" and nr: "\<not> is_space (last r)"
      using False fne by (simp_all add: no_trailing_space_iff)
    have "trim f = g"
      unfolding tf using gne nf lg by (intro rtrim_id) simp_all
    moreover have "trim (f @ r) = g @ r"
      unfolding tfr using lr gne nr by (intro rtrim_id) simp_all
    ultimately show "trim f @ r = trim (f @ r)" by simp
  qed
qed

lemma stream_text_agrees:
  "(case dropWhile (list_all is_space) fs of [] \<Rightarrow> [] | f # rest \<Rightarrow> trim f @ concat rest)
     = trim (concat fs) \<longleftrightarrow> trim_agrees fs"
proof (induction fs)
  case Nil
  then show ?case by (simp add: trim_agrees_def trim_def)
next
  case (Cons f fs)
  show ?case
  proof (cases "list_all is_space f")
    case True
    then have "trim (concat (f # fs)) = trim (concat fs)" by (simp add: trim_blank_append)
    then show ?thesis using True Cons.IH by (simp add: trim_agrees_def)
  next
    case False
    then show ?thesis
      using trim_append_agrees [OF False, of "concat fs"] by (simp add: trim_agrees_def)
  qed
qed

lemma buffered_message_content:
  "jp (concat (body resp)) = Some data \<Longrightarrow> message_content data = Some text \<Longrightarrow>
   buffered jp h resp = Inr (trim text, if h then [trim text] else [])"
  by (auto simp: buffered_def message_content_def Let_def
           split: sum.splits jsval.splits json.splits)

text \<open>
  C1, mode equivalence, as amended. The answer text is the concatenation of the fragments
  \<open>fss\<close>. It is delivered once as a buffered body whose value holds the text as the
  content of the message of its first choice, and once as an event stream whose chunks
  hold whole lines (data lines, blank lines, comment lines, the terminator) and whose
  lines before the terminator of their chunk carry the fragments. Both calls return; the
  buffered call returns the trimmed text; and the streaming call returns the same answer
  exactly when \<open>trim_agrees\<close> holds of the fragments: nothing follows the first fragment
  that holds a character other than white space, or neither that fragment nor what
  follows it ends in white space.
\<close>

theorem mode_equivalence:
  assumes "JSON_parse (concat bs) = Some data"
    and "message_content data = Some (concat (concat fss))"
    and "list_all2 (chunk_fragments JSON_parse) lss fss"
  shows "\<exists>a fr.
           chat JSON_parse True True
             \<lparr>ok = True, status = s, statusText = t, body = map unlines lss\<rparr> = Inr (a, fr)
         \<and> chat JSON_parse False True
             \<lparr>ok = True, status = s, statusText = t, body = bs\<rparr>
             = Inr (trim (concat (concat fss)), [trim (concat (concat fss))])
         \<and> (a = trim (concat (concat fss)) \<longleftrightarrow> trim_agrees (concat fss))"
proof -
  let ?st = "feed True initial (concat fss)"
  have b: "buffer initial = []" and a: "answer initial = []" by (simp_all add: initial_def)
  have run: "read_loop JSON_parse True initial (map unlines lss) = Inr ?st"
    using read_loop_chunks [OF assms(3) b] .
  then have streamed: "chat JSON_parse True True
      \<lparr>ok = True, status = s, statusText = t, body = map unlines lss\<rparr>
      = Inr (answer ?st, sent ?st)"
    by (simp add: chat_def)
  have buf: "chat JSON_parse False True \<lparr>ok = True, status = s, statusText = t, body = bs\<rparr>
      = Inr (trim (concat (concat fss)), [trim (concat (concat fss))])"
    using assms(1,2) by (simp add: chat_def buffered_message_content)
  have "answer ?st = trim (concat (concat fss)) \<longleftrightarrow> trim_agrees (concat fss)"
    unfolding feed_answer_fresh [OF a] by (rule stream_text_agrees)
  with streamed buf show ?thesis by blast
qed

theorem mode_equivalence_witness:
  \<open>json_parse (concat [''{"id":"x","choices":[{"index":0,"mess'',
                         ''age":{"role":"assistant","content":" Hi there"}}]}''])
     = Some (JObj [(''id'', JStr ''x''),
                   (''choices'', JArr [JObj [(''index'', JNum ''0''),
                      (''message'', JObj [(''role'', JStr ''assistant''),
                                          (''content'', JStr '' Hi there'')])]])])
   \<and> message_content
        (JObj [(''id'', JStr ''x''),
               (''choices'', JArr [JObj [(''index'', JNum ''0''),
                  (''message'', JObj [(''role'', JStr ''assistant''),
                                      (''content'', JStr '' Hi there'')])]])])
       = Some (concat (concat [[[], []], [[], '' Hi'', [], '' there'', []], [[], []]]))
   \<and> list_all2 (chunk_fragments json_parse)
        [[''data: {"choices":[{"index":0,"delta":{"role":"assistant"}}]}'', []],
         ['': ping'',
          ''data: {"choices":[{"index":0,"delta":{"content":" Hi"}}]}'', [],
          ''data: {"choices":[{"delta":{"content":" there"},"finish_reason":null}]}'', []],
         [''data: {"choices":[{"delta":{},"finish_reason":"stop"}]}'', [],
          ''data: [DONE]'', []]]
        [[[], []], [[], '' Hi'', [], '' there'', []], [[], []]]
   \<and> trim_agrees (concat [[[], []], [[], '' Hi'', [], '' there'', []], [[], []]])
   \<and> (\<exists>fr. chat json_parse True True
          \<lparr>ok = True, status = 200, statusText = ''OK'',
           body = map unlines
            [[''data: {"choices":[{"index":0,"delta":{"role":"assistant"}}]}'', []],
             ['': ping'',
              ''data: {"choices":[{"index":0,"delta":{"content":" Hi"}}]}'', [],
              ''data: {"choices":[{"delta":{"content":" there"},"finish_reason":null}]}'', []],
             [''data: {"choices":[{"delta":{},"finish_reason":"stop"}]}'', [],
              ''data: [DONE]'', []]]\<rparr>
          = Inr (''Hi there'', fr))
   \<and> chat json_parse False True
          \<lparr>ok = True, status = 200, statusText = ''OK'',
           body = [''{"id":"x","choices":[{"index":0,"mess'',
                   ''age":{"role":"assistant","content":" Hi there"}}]}'']\<rparr>
          = Inr (''Hi there'', [''Hi there''])\<close>
proof -
  have a: \<open>json_parse (concat [''{"id":"x","choices":[{"index":0,"mess'',
                         ''age":{"role":"assistant","content":" Hi there"}}]}''])
     = Some (JObj [(''id'', JStr ''x''),
                   (''choices'', JArr [JObj [(''index'', JNum ''0''),
                      (''message'', JObj [(''role'', JStr ''assistant''),
                                          (''content'', JStr '' Hi there'')])]])])\<close>
    by code_simp
  have b: \<open>message_content
        (JObj [(''id'', JStr ''x''),
               (''choices'', JArr [JObj [(''index'', JNum ''0''),
                  (''message'', JObj [(''role'', JStr ''assistant''),
                                      (''content'', JStr '' Hi there'')])]])])
       = Some (concat (concat [[[], []], [[], '' Hi'', [], '' there'', []], [[], []]]))\<close>
    by code_simp
  have c: \<open>list_all2 (chunk_fragments json_parse)
        [[''data: {"choices":[{"index":0,"delta":{"role":"assistant"}}]}'', []],
         ['': ping'',
          ''data: {"choices":[{"index":0,"delta":{"content":" Hi"}}]}'', [],
          ''data: {"choices":[{"delta":{"content":" there"},"finish_reason":null}]}'', []],
         [''data: {"choices":[{"delta":{},"finish_reason":"stop"}]}'', [],
          ''data: [DONE]'', []]]
        [[[], []], [[], '' Hi'', [], '' there'', []], [[], []]]\<close>
    by code_simp
  have d: \<open>trim_agrees (concat [[[], []], [[], '' Hi'', [], '' there'', []], [[], []]])\<close>
    by code_simp
  have t: \<open>trim (concat (concat [[[], []], [[], '' Hi'', [], '' there'', []], [[], []]]))
      = ''Hi there''\<close>
    by code_simp
  from mode_equivalence [OF a b c, of 200 "''OK''"] d a b c
  show ?thesis unfolding t by blast
qed

text \<open>
  The claim as stated fails: the text \<open>Hello world\<close>, streamed as the deltas
  \<open>Hello \<close> and \<open>world\<close>, is returned as \<open>Helloworld\<close> by the streaming call and
  as \<open>Hello world\<close> by the buffered call.
\<close>

theorem mode_equivalence_counterexample:
  \<open>chat json_parse False True
     \<lparr>ok = True, status = 200, statusText = ''OK'',
      body = [''{"choices":[{"message":{"content":"Hello world"}}]}'']\<rparr>
     = Inr (''Hello world'', [''Hello world''])
   \<and> chat json_parse True True
     \<lparr>ok = True, status = 200, statusText = ''OK'',
      body = [''data: {"choices":[{"delta":{"content":"Hello "}}]}\<newline>'',
              ''data: {"choices":[{"delta":{"content":"world"}}]}\<newline>'']\<rparr>
     = Inr (''Helloworld'', [''Hello'', ''world''])
   \<and> concat [''Hello '', ''world''] = ''Hello world''\<close>
  by code_simp

end
